theory Spec2Isabelle
  imports Main
begin

section \<open>Python string and list primitives used by the two converters\<close>

text \<open>
  A Python \<open>str\<close> is modelled as a \<open>string\<close> (a list of \<open>char\<close>), one \<open>char\<close> per code
  point below 256. \<open>isspace\<close> lists the code points below 256 for which Python's
  \<open>str.isspace\<close> holds; these are the characters that \<open>str.strip()\<close> removes.
\<close>

definition isspace :: "char \<Rightarrow> bool" where
  "isspace c = (c \<in> set [CHR 0x09, CHR 0x0A, CHR 0x0B, CHR 0x0C, CHR 0x0D,
                           CHR 0x1C, CHR 0x1D, CHR 0x1E, CHR 0x1F, CHR 0x20,
                           CHR 0x85, CHR 0xA0])"

text \<open>\<open>s.strip()\<close>: leading and trailing whitespace removed.\<close>

definition strip :: "string \<Rightarrow> string" where
  "strip s = rev (dropWhile isspace (rev (dropWhile isspace s)))"

text \<open>\<open>s.startswith(p)\<close> and \<open>s.endswith(p)\<close>.\<close>

definition startswith :: "string \<Rightarrow> string \<Rightarrow> bool" where
  "startswith s p = (take (length p) s = p)"

definition endswith :: "string \<Rightarrow> string \<Rightarrow> bool" where
  "endswith s p = (length p \<le> length s \<and> drop (length s - length p) s = p)"

text \<open>\<open>p in s\<close> for strings: \<open>p\<close> occurs in \<open>s\<close> as a contiguous substring.\<close>

fun str_in :: "string \<Rightarrow> string \<Rightarrow> bool" where
  "str_in p [] = (p = [])"
| "str_in p (c # cs) = (startswith (c # cs) p \<or> str_in p cs)"

text \<open>\<open>s.split(sep)\<close> for a one-character separator: always at least one segment.\<close>

fun str_split :: "char \<Rightarrow> string \<Rightarrow> string list" where
  "str_split sep [] = [[]]"
| "str_split sep (c # cs) =
     (if c = sep then [] # str_split sep cs
      else (case str_split sep cs of
              [] \<Rightarrow> [[c]]
            | w # ws \<Rightarrow> (c # w) # ws))"

text \<open>\<open>sep.join(xs)\<close>.\<close>

fun str_join :: "string \<Rightarrow> string list \<Rightarrow> string" where
  "str_join sep [] = []"
| "str_join sep [x] = x"
| "str_join sep (x # y # ys) = x @ sep @ str_join sep (y # ys)"

text \<open>
  \<open>s.replace(old, new)\<close>: the occurrences of \<open>old\<close> are replaced from left to right
  without overlap. With an empty \<open>old\<close> Python puts \<open>new\<close> before every character and
  at the end.
\<close>

function str_replace :: "string \<Rightarrow> string \<Rightarrow> string \<Rightarrow> string" where
  "str_replace old new s =
     (if old = [] then new @ concat (map (\<lambda>c. c # new) s)
      else if s = [] then []
      else if startswith s old then new @ str_replace old new (drop (length old) s)
      else hd s # str_replace old new (tl s))"
  by pat_completeness auto
termination
  by (relation "measure (\<lambda>(old, new, s). length s)") auto

declare str_replace.simps [simp del]

text \<open>
  The slice \<open>xs[a:-b]\<close> for \<open>a \<ge> 0\<close> and \<open>b > 0\<close>: the stop index \<open>len - b\<close> is clamped
  at 0 and an empty range gives the empty list, which truncating subtraction on
  \<open>nat\<close> computes.
\<close>

definition slice :: "nat \<Rightarrow> nat \<Rightarrow> 'a list \<Rightarrow> 'a list" where
  "slice a b xs = take (length xs - b - a) (drop a xs)"

text \<open>
  \<open>[cell.strip() for cell in line.split('|')[1:-1]]\<close>, the expression both converters
  use to cut a table line into cells.
\<close>

definition cells :: "string \<Rightarrow> string list" where
  "cells line = map strip (slice 1 1 (str_split CHR ''|'' line))"

definition nl :: string where
  "nl = [CHR 0x0A]"

section \<open>The document under construction\<close>

text \<open>
  Both converters build the output by calls on a python-docx \<open>Document\<close>. The document
  is modelled as the list of these calls, in order:
  \<^item> \<open>Heading text level\<close>: \<open>doc.add_heading(text, level)\<close>;
  \<^item> \<open>Paragraph text bold italic\<close>: \<open>doc.add_paragraph(text)\<close> with the two run flags;
  \<^item> \<open>Table headers rows\<close>: \<open>doc.add_table\<close> with the header cells and one added row per
    element of \<open>rows\<close>;
  \<^item> \<open>CodeBlock text\<close>: \<open>doc.add_paragraph(text)\<close> styled \<open>Intense Quote\<close> in Courier New;
  \<^item> \<open>ListItem text\<close>: \<open>doc.add_paragraph(text, style='List Bullet')\<close>;
  \<^item> \<open>Spacer\<close>: \<open>doc.add_paragraph()\<close> with no text.
\<close>

datatype command =
    Heading string nat
  | Paragraph string bool bool
  | Table "string list" "string list list"
  | CodeBlock string
  | ListItem string
  | Spacer

datatype error = IndexError

type_synonym document = "command list"

section \<open>convert\_md\_to\_docx.py\<close>

definition add_heading :: "document \<Rightarrow> string \<Rightarrow> nat \<Rightarrow> document" where
  "add_heading doc text level = doc @ [Heading text level]"

definition add_paragraph :: "document \<Rightarrow> string \<Rightarrow> bool \<Rightarrow> bool \<Rightarrow> document" where
  "add_paragraph doc text bold italic = doc @ [Paragraph text bold italic]"

text \<open>
  The \<open>while\<close> loop of \<open>parse_table\<close> that collects the data rows. It returns the rows
  and the index at which it stopped; \<open>break\<close> leaves the index where it is.
\<close>

function parse_rows :: "string list \<Rightarrow> nat \<Rightarrow> string list list \<Rightarrow> string list list \<times> nat" where
  "parse_rows lines idx rows =
     (if idx < length lines \<and> CHR ''|'' \<in> set (lines ! idx) then
        (let row_line = strip (lines ! idx) in
         if row_line = [] \<or> startswith row_line ''#'' then (rows, idx)
         else
           (let row = cells row_line in
            parse_rows lines (idx + 1)
              (if row \<noteq> [] \<and> list_ex (\<lambda>cell. cell \<noteq> []) row then rows @ [row] else rows)))
      else (rows, idx))"
  by pat_completeness auto
termination
  by (relation "measure (\<lambda>(lines, idx, rows). length lines - idx)") auto

declare parse_rows.simps [simp del]

definition parse_table :: "string list \<Rightarrow> nat \<Rightarrow> string list \<times> string list list \<times> nat" where
  "parse_table lines start_idx =
     (if start_idx < length lines \<and> CHR ''|'' \<in> set (lines ! start_idx) then
        (let header_line = strip (lines ! start_idx);
             headers = cells header_line;
             idx = start_idx + 1;
             idx = (if idx < length lines \<and> str_in ''---'' (lines ! idx) then idx + 1 else idx);
             (rows, idx) = parse_rows lines idx []
         in (headers, rows, idx))
      else ([], [], start_idx))"

text \<open>
  \<open>add_table_to_doc\<close> creates a table of \<open>len(headers)\<close> columns and then writes
  \<open>row_cells[i].text\<close> for every cell of every row. A row that python-docx adds to a
  table of \<open>n\<close> columns has exactly \<open>n\<close> cells, so the write raises \<open>IndexError\<close> at the
  first row that has more cells than there are headers.
\<close>

definition add_table_to_doc :: "document \<Rightarrow> string list \<Rightarrow> string list list \<Rightarrow> error + document" where
  "add_table_to_doc doc headers rows =
     (if headers = [] \<or> rows = [] then Inr doc
      else if list_ex (\<lambda>row. length headers < length row) rows then Inl IndexError
      else Inr (doc @ [Table headers rows]))"

text \<open>
  One iteration of the \<open>while i < len(lines)\<close> loop of \<open>markdown_to_docx\<close>, for
  \<open>i < len(lines)\<close>: the document after the iteration and the new value of \<open>i\<close>, or the
  exception that ends the run.
\<close>

definition scan_step_md :: "string list \<Rightarrow> nat \<Rightarrow> document \<Rightarrow> error + document \<times> nat" where
  "scan_step_md lines i doc =
     (let line = lines ! i in
      if strip line = [] then Inr (doc, i + 1)
      else if startswith line ''# '' then Inr (add_heading doc (strip (drop 2 line)) 1, i + 1)
      else if startswith line ''## '' then Inr (add_heading doc (strip (drop 3 line)) 2, i + 1)
      else if startswith line ''### '' then Inr (add_heading doc (strip (drop 4 line)) 3, i + 1)
      else if startswith line ''#### '' then Inr (add_heading doc (strip (drop 5 line)) 4, i + 1)
      else if CHR ''|'' \<in> set line then
        (case parse_table lines i of
           (headers, rows, next_idx) \<Rightarrow>
             if headers \<noteq> [] \<and> rows \<noteq> [] then
               (case add_table_to_doc doc headers rows of
                  Inl e \<Rightarrow> Inl e
                | Inr doc' \<Rightarrow> Inr (doc', next_idx))
             else Inr (doc, next_idx))
      else if startswith line ''**'' then
        Inr (add_paragraph doc (str_replace ''**'' [] line) True False, i + 1)
      else if strip line \<noteq> [] \<and> \<not> startswith line ''---'' then
        (let text = str_replace ''_'' [] (str_replace ''`'' [] (str_replace ''**'' [] line)) in
         Inr (if strip text \<noteq> [] then add_paragraph doc text False False else doc, i + 1))
      else if startswith line ''---'' then Inr (doc @ [Spacer], i + 1)
      else Inr (doc, i + 1))"

text \<open>
  The loop itself. \<open>fuel\<close> bounds the number of iterations: \<open>None\<close> means that the bound
  was reached with lines left, \<open>Some (Inl e)\<close> that the run ended with exception \<open>e\<close>,
  \<open>Some (Inr doc)\<close> that the loop ended with document \<open>doc\<close>.
\<close>

fun scan_md :: "nat \<Rightarrow> string list \<Rightarrow> nat \<Rightarrow> document \<Rightarrow> (error + document) option" where
  "scan_md 0 lines i doc = (if i < length lines then None else Some (Inr doc))"
| "scan_md (Suc fuel) lines i doc =
     (if i < length lines then
        (case scan_step_md lines i doc of
           Inl e \<Rightarrow> Some (Inl e)
         | Inr (doc', i') \<Rightarrow> scan_md fuel lines i' doc')
      else Some (Inr doc))"

text \<open>
  \<open>markdown_to_docx\<close> of convert\_md\_to\_docx.py, from the text of the file to the
  document that is saved: the title, then the scan of \<open>content.split('\n')\<close>.
\<close>

definition markdown_to_docx_md :: "nat \<Rightarrow> string \<Rightarrow> (error + document) option" where
  "markdown_to_docx_md fuel content =
     scan_md fuel (str_split CHR 0x0A content) 0
       [Heading ''OneMind AI - Complete Hardcoded Values Audit'' 0]"

section \<open>convert\_to\_word.py\<close>

definition add_heading_with_style :: "document \<Rightarrow> string \<Rightarrow> nat \<Rightarrow> document" where
  "add_heading_with_style doc text level = doc @ [Heading text level]"

text \<open>The loop \<open>for line in lines[2:]\<close> of \<open>add_table_from_markdown\<close>: the rows it adds.\<close>

fun add_rows :: "string list \<Rightarrow> string list \<Rightarrow> string list list" where
  "add_rows header [] = []"
| "add_rows header (line # rest) =
     (if strip line \<noteq> [] \<and> CHR ''|'' \<in> set line then
        (let cs = cells line in
         if length cs = length header then cs # add_rows header rest
         else add_rows header rest)
      else add_rows header rest)"

definition add_table_from_markdown :: "document \<Rightarrow> string \<Rightarrow> document" where
  "add_table_from_markdown doc markdown_table =
     (let lines = str_split CHR 0x0A (strip markdown_table) in
      if length lines < 3 then doc
      else
        (let header = cells (lines ! 0) in
         doc @ [Table header (add_rows header (drop 2 lines))]))"

text \<open>The inner loop of the code-block branch: the lines up to the next fence.\<close>

function collect_code :: "string list \<Rightarrow> nat \<Rightarrow> string list \<Rightarrow> string list \<times> nat" where
  "collect_code lines i code_lines =
     (if i < length lines \<and> \<not> startswith (lines ! i) ''```'' then
        collect_code lines (i + 1) (code_lines @ [lines ! i])
      else (code_lines, i))"
  by pat_completeness auto
termination
  by (relation "measure (\<lambda>(lines, i, code_lines). length lines - i)") auto

declare collect_code.simps [simp del]

text \<open>The inner loop of the table branch: the lines that start with a pipe once trimmed.\<close>

function collect_table :: "string list \<Rightarrow> nat \<Rightarrow> string list \<Rightarrow> string list \<times> nat" where
  "collect_table lines i table_lines =
     (if i < length lines \<and> startswith (strip (lines ! i)) ''|'' then
        collect_table lines (i + 1) (table_lines @ [lines ! i])
      else (table_lines, i))"
  by pat_completeness auto
termination
  by (relation "measure (\<lambda>(lines, i, table_lines). length lines - i)") auto

declare collect_table.simps [simp del]

text \<open>
  One iteration of the \<open>while i < len(lines)\<close> loop of \<open>markdown_to_docx\<close>, for
  \<open>i < len(lines)\<close>, the final \<open>i += 1\<close> included. The table branch steps \<open>i\<close> back by
  one before that increment; \<open>i\<close> is at least 1 there.
\<close>

definition scan_step_word :: "string list \<Rightarrow> nat \<Rightarrow> document \<Rightarrow> document \<times> nat" where
  "scan_step_word lines i doc =
     (let line = lines ! i in
      if startswith line ''# '' then (add_heading_with_style doc (strip (drop 2 line)) 1, i + 1)
      else if startswith line ''## '' then (add_heading_with_style doc (strip (drop 3 line)) 2, i + 1)
      else if startswith line ''### '' then (add_heading_with_style doc (strip (drop 4 line)) 3, i + 1)
      else if startswith line ''#### '' then (add_heading_with_style doc (strip (drop 5 line)) 4, i + 1)
      else if startswith line ''```'' then
        (case collect_code lines (i + 1) [] of
           (code_lines, j) \<Rightarrow> (doc @ [CodeBlock (str_join nl code_lines)], j + 1))
      else if startswith (strip line) ''|'' then
        (case collect_table lines (i + 1) [line] of
           (table_lines, j) \<Rightarrow>
             (add_table_from_markdown doc (str_join nl table_lines), (j - 1) + 1))
      else if startswith (strip line) ''**'' \<and> endswith (strip line) ''**'' then
        (doc @ [Paragraph (slice 2 2 (strip line)) True False], i + 1)
      else if startswith (strip line) ''- '' then
        (doc @ [ListItem (drop 2 (strip line))], i + 1)
      else if strip line \<noteq> [] \<and> \<not> startswith line ''#'' \<and> \<not> startswith line ''|'' then
        (if strip line \<noteq> [] then doc @ [Paragraph (strip line) False False] else doc, i + 1)
      else (doc, i + 1))"

fun scan_word :: "nat \<Rightarrow> string list \<Rightarrow> nat \<Rightarrow> document \<Rightarrow> document option" where
  "scan_word 0 lines i doc = (if i < length lines then None else Some doc)"
| "scan_word (Suc fuel) lines i doc =
     (if i < length lines then
        (case scan_step_word lines i doc of
           (doc', i') \<Rightarrow> scan_word fuel lines i' doc')
      else Some doc)"

definition markdown_to_docx_word :: "nat \<Rightarrow> string \<Rightarrow> document option" where
  "markdown_to_docx_word fuel content = scan_word fuel (str_split CHR 0x0A content) 0 []"

section \<open>Well-formed table lines\<close>


section \<open>Facts about the primitives and the inner loops\<close>

lemma dropWhile_all_Nil: "(\<forall>x \<in> set (dropWhile P xs). P x) \<longleftrightarrow> dropWhile P xs = []"
proof
  assume all: "\<forall>x \<in> set (dropWhile P xs). P x"
  show "dropWhile P xs = []"
  proof (rule ccontr)
    assume ne: "dropWhile P xs \<noteq> []"
    then have "\<not> P (hd (dropWhile P xs))" by (rule hd_dropWhile)
    moreover from ne have "hd (dropWhile P xs) \<in> set (dropWhile P xs)" by (rule hd_in_set)
    ultimately show False using all by blast
  qed
next
  assume "dropWhile P xs = []"
  then show "\<forall>x \<in> set (dropWhile P xs). P x" by (auto dest: set_dropWhileD)
qed

lemma strip_Nil_iff: "strip s = [] \<longleftrightarrow> (\<forall>c \<in> set s. isspace c)"
proof -
  have "strip s = [] \<longleftrightarrow> (\<forall>x \<in> set (dropWhile isspace s). isspace x)"
    unfolding strip_def by simp
  also have "\<dots> \<longleftrightarrow> dropWhile isspace s = []" by (rule dropWhile_all_Nil)
  also have "\<dots> \<longleftrightarrow> (\<forall>c \<in> set s. isspace c)" by simp
  finally show ?thesis .
qed

lemma strip_Cons_nonspace:
  "\<not> isspace c \<Longrightarrow> strip (c # s) = c # rev (dropWhile isspace (rev s))"
  by (simp add: strip_def dropWhile_append)

lemma startswith_Cons: "startswith (c # s) (d # p) \<longleftrightarrow> c = d \<and> startswith s p"
  by (simp add: startswith_def)

lemma startswith_Nil [simp]: "startswith s []"
  by (simp add: startswith_def)

lemma startswith_Nil_left: "startswith [] p \<longleftrightarrow> p = []"
  by (auto simp: startswith_def)

lemma startswith_append: "startswith (p @ s) p"
  by (simp add: startswith_def)

lemma parse_rows_eq:
  "parse_rows lines idx rows =
     (rows @ filter (\<lambda>row. row \<noteq> [] \<and> list_ex (\<lambda>cell. cell \<noteq> []) row)
               (map (\<lambda>l. cells (strip l))
                  (takeWhile (\<lambda>l. CHR ''|'' \<in> set l \<and> strip l \<noteq> [] \<and> \<not> startswith (strip l) ''#'')
                     (drop idx lines))),
      idx + length (takeWhile (\<lambda>l. CHR ''|'' \<in> set l \<and> strip l \<noteq> [] \<and> \<not> startswith (strip l) ''#'')
                     (drop idx lines)))"
proof (induction lines idx rows rule: parse_rows.induct)
  case (1 lines idx rows)
  show ?case
  proof (cases "idx < length lines")
    case False
    then show ?thesis by (subst parse_rows.simps) simp
  next
    case True
    then have d: "drop idx lines = lines ! idx # drop (Suc idx) lines"
      by (simp add: Cons_nth_drop_Suc)
    show ?thesis
      using True 1
      by (subst parse_rows.simps) (simp add: d Let_def)
  qed
qed

lemma collect_code_eq:
  "collect_code lines i acc =
     (acc @ takeWhile (\<lambda>l. \<not> startswith l ''```'') (drop i lines),
      i + length (takeWhile (\<lambda>l. \<not> startswith l ''```'') (drop i lines)))"
proof (induction lines i acc rule: collect_code.induct)
  case (1 lines i acc)
  show ?case
  proof (cases "i < length lines")
    case False
    then show ?thesis by (subst collect_code.simps) simp
  next
    case True
    then have d: "drop i lines = lines ! i # drop (Suc i) lines"
      by (simp add: Cons_nth_drop_Suc)
    show ?thesis
      using True 1
      by (subst collect_code.simps) (simp add: d)
  qed
qed

lemma collect_table_eq:
  "collect_table lines i acc =
     (acc @ takeWhile (\<lambda>l. startswith (strip l) ''|'') (drop i lines),
      i + length (takeWhile (\<lambda>l. startswith (strip l) ''|'') (drop i lines)))"
proof (induction lines i acc rule: collect_table.induct)
  case (1 lines i acc)
  show ?case
  proof (cases "i < length lines")
    case False
    then show ?thesis by (subst collect_table.simps) simp
  next
    case True
    then have d: "drop i lines = lines ! i # drop (Suc i) lines"
      by (simp add: Cons_nth_drop_Suc)
    show ?thesis
      using True 1
      by (subst collect_table.simps) (simp add: d)
  qed
qed

lemma strip_nonspace_ends:
  assumes "s \<noteq> []" "\<not> isspace (hd s)" "\<not> isspace (last s)"
  shows "strip s = s"
proof -
  from assms obtain c t where s: "s = c # t" by (cases s) auto
  with assms have c: "\<not> isspace c" by simp
  have "dropWhile isspace (rev s) = rev s"
    using assms by (cases "rev s") (auto simp: last_rev hd_rev)
  then show ?thesis
    using c by (simp add: strip_def s)
qed

lemma isspace_simps [simp]:
  "\<not> isspace CHR ''#''" "\<not> isspace CHR ''-''" "\<not> isspace CHR ''*''" "\<not> isspace CHR ''|''"
  "\<not> isspace CHR ''`''" "isspace CHR '' ''"
  by (simp_all add: isspace_def)


section \<open>Single lines: headings and horizontal rules\<close>



lemma hyphens_md:
  assumes "i < length lines" "3 \<le> n" "lines ! i = replicate n CHR ''-''"
  shows "scan_step_md lines i doc = Inr (doc @ [Spacer], i + 1)"
proof -
  from assms(2) obtain m where n: "n = Suc (Suc (Suc m))"
    by (metis add_Suc_right le_Suc_ex numeral_3_eq_3 add_Suc add_0)
  show ?thesis
    using assms(3)
    by (simp add: scan_step_md_def startswith_def strip_Nil_iff n)
qed

lemma hyphens_word:
  assumes "i < length lines" "3 \<le> n" "lines ! i = replicate n CHR ''-''"
  shows "scan_step_word lines i doc = (doc @ [Paragraph (replicate n CHR ''-'') False False], i + 1)"
proof -
  define L where "L = replicate n CHR ''-''"
  from assms(2) obtain m where n: "n = Suc (Suc (Suc m))"
    by (metis add_Suc_right le_Suc_ex numeral_3_eq_3 add_Suc add_0)
  have L: "L = CHR ''-'' # CHR ''-'' # CHR ''-'' # replicate m CHR ''-''"
    by (simp add: L_def n)
  have s: "strip L = L"
    by (rule strip_nonspace_ends) (simp_all add: L_def n last_replicate del: replicate.simps)
  have f: "L \<noteq> []" "\<not> startswith L ''# ''" "\<not> startswith L ''## ''"
    "\<not> startswith L ''### ''" "\<not> startswith L ''#### ''" "\<not> startswith L ''```''"
    "\<not> startswith L ''|''" "\<not> startswith L ''**''" "\<not> startswith L ''- ''"
    "\<not> startswith L ''#''"
    by (simp_all add: L startswith_Cons)
  show ?thesis
    using assms(3) f unfolding L_def [symmetric]
    by (simp add: scan_step_word_def Let_def s)
qed



section \<open>Every iteration advances the cursor\<close>

lemma parse_table_eq:
  assumes "i < length lines" "CHR ''|'' \<in> set (lines ! i)"
  shows "parse_table lines i =
     (let k = (if i + 1 < length lines \<and> str_in ''---'' (lines ! (i + 1)) then i + 2 else i + 1);
          run = takeWhile (\<lambda>l. CHR ''|'' \<in> set l \<and> strip l \<noteq> [] \<and> \<not> startswith (strip l) ''#'')
                  (drop k lines)
      in (cells (strip (lines ! i)),
          filter (\<lambda>row. row \<noteq> [] \<and> list_ex (\<lambda>cell. cell \<noteq> []) row) (map (\<lambda>l. cells (strip l)) run),
          k + length run))"
  using assms by (simp add: parse_table_def parse_rows_eq Let_def)

lemma parse_table_advances:
  assumes "i < length lines" "CHR ''|'' \<in> set (lines ! i)" "parse_table lines i = (hs, rs, j)"
  shows "i < j" "j \<le> length lines"
proof -
  let ?k = "if i + 1 < length lines \<and> str_in ''---'' (lines ! (i + 1)) then i + 2 else i + 1"
  let ?run = "takeWhile (\<lambda>l. CHR ''|'' \<in> set l \<and> strip l \<noteq> [] \<and> \<not> startswith (strip l) ''#'') (drop ?k lines)"
  from assms have j: "j = ?k + length ?run"
    by (simp add: parse_table_eq Let_def split: if_splits)
  then show "i < j" by simp
  have "length ?run \<le> length (drop ?k lines)" by (rule length_takeWhile_le)
  then have "?k + length ?run \<le> length lines" using assms(1) by (auto split: if_splits)
  with j show "j \<le> length lines" by simp
qed

lemma step_md_advances_case:
  assumes "i < length lines"
  shows "case scan_step_md lines i doc of Inl e \<Rightarrow> True | Inr (doc', j) \<Rightarrow> i < j"
proof (cases "CHR ''|'' \<in> set (lines ! i)")
  case False
  then show ?thesis
    by (simp add: scan_step_md_def Let_def)
next
  case True
  obtain hs rs n where pt: "parse_table lines i = (hs, rs, n)" by (cases "parse_table lines i") auto
  with assms True have "i < n" by (auto dest: parse_table_advances)
  with pt True show ?thesis
    by (simp add: scan_step_md_def Let_def split: sum.split)
qed

lemma step_md_advances:
  assumes "i < length lines" "scan_step_md lines i doc = Inr (doc', j)"
  shows "i < j"
  using step_md_advances_case [OF assms(1), of doc] assms(2) by simp

lemma step_word_advances: "i < snd (scan_step_word lines i doc)"
  by (simp add: scan_step_word_def Let_def collect_code_eq collect_table_eq)

lemma scan_md_fuel:
  "length lines - i \<le> fuel \<Longrightarrow> scan_md fuel lines i doc \<noteq> None"
proof (induction fuel arbitrary: i doc)
  case 0
  then show ?case by simp
next
  case (Suc fuel)
  show ?case
  proof (cases "i < length lines")
    case False
    then show ?thesis by simp
  next
    case True
    show ?thesis
    proof (cases "scan_step_md lines i doc")
      case (Inl e)
      with True show ?thesis by simp
    next
      case (Inr r)
      obtain doc' j where r: "r = (doc', j)" by (cases r) auto
      with Inr True have "i < j" by (auto dest: step_md_advances)
      with Suc.prems have "length lines - j \<le> fuel" by arith
      then have "scan_md fuel lines j doc' \<noteq> None" by (rule Suc.IH)
      with True Inr r show ?thesis by simp
    qed
  qed
qed

lemma scan_word_fuel:
  "length lines - i \<le> fuel \<Longrightarrow> scan_word fuel lines i doc \<noteq> None"
proof (induction fuel arbitrary: i doc)
  case 0
  then show ?case by simp
next
  case (Suc fuel)
  show ?case
  proof (cases "i < length lines")
    case False
    then show ?thesis by simp
  next
    case True
    obtain doc' j where r: "scan_step_word lines i doc = (doc', j)"
      by (cases "scan_step_word lines i doc") auto
    have "i < snd (scan_step_word lines i doc)" by (rule step_word_advances)
    with r have "i < j" by simp
    with Suc.prems have "length lines - j \<le> fuel" by arith
    then have "scan_word fuel lines j doc' \<noteq> None" by (rule Suc.IH)
    with True r show ?thesis by simp
  qed
qed

text \<open>
  Claim C10. In both converters every iteration of the main loop that returns leaves
  the cursor strictly greater than it was, whichever branch is taken (the table and
  code-block branches included), so the loop ends after at most as many iterations as
  there are lines: with \<open>length lines\<close> iterations allowed, the scan returns a result.
\<close>

theorem scanner_terminates:
  "(\<forall>i doc. i < length lines \<longrightarrow>
      (\<forall>doc' j. scan_step_md lines i doc = Inr (doc', j) \<longrightarrow> i < j)
      \<and> i < snd (scan_step_word lines i doc))
   \<and> (\<exists>r. scan_md (length lines) lines 0 doc0 = Some r)
   \<and> (\<exists>d. scan_word (length lines) lines 0 doc0 = Some d)"
proof -
  have "scan_md (length lines) lines 0 doc0 \<noteq> None" by (rule scan_md_fuel) simp
  moreover have "scan_word (length lines) lines 0 doc0 \<noteq> None" by (rule scan_word_fuel) simp
  ultimately show ?thesis
    using step_md_advances step_word_advances by blast
qed

theorem scanner_terminates_witness:
  "(1::nat) < length [''# a'', ''| x |'', ''|---|'', ''| 1 |'', ''```'', ''end'']
   \<and> scan_step_md [''# a'', ''| x |'', ''|---|'', ''| 1 |'', ''```'', ''end''] 1 [] = Inr ([Table [''x''] [[''1'']]], 4)
   \<and> (1::nat) < 4
   \<and> 1 < snd (scan_step_word [''# a'', ''| x |'', ''|---|'', ''| 1 |'', ''```'', ''end''] 1 [])
   \<and> (\<exists>r. scan_md 6 [''# a'', ''| x |'', ''|---|'', ''| 1 |'', ''```'', ''end''] 0 [] = Some r)
   \<and> (\<exists>d. scan_word 6 [''# a'', ''| x |'', ''|---|'', ''| 1 |'', ''```'', ''end''] 0 [] = Some d)"
proof -
  let ?L = "[''# a'', ''| x |'', ''|---|'', ''| 1 |'', ''```'', ''end'']"
  have len: "length ?L = 6" by simp
  have e: "scan_step_md ?L 1 [] = Inr ([Table [''x''] [[''1'']]], 4)"
    by code_simp
  note t = scanner_terminates [of ?L "[]"]
  from t have steps: "\<forall>i doc. i < length ?L \<longrightarrow>
      (\<forall>doc' j. scan_step_md ?L i doc = Inr (doc', j) \<longrightarrow> i < j)
      \<and> i < snd (scan_step_word ?L i doc)"
    by (rule conjunct1)
  from t have md: "\<exists>r. scan_md (length ?L) ?L 0 [] = Some r"
    by (elim conjE)
  from t have word: "\<exists>d. scan_word (length ?L) ?L 0 [] = Some d"
    by (elim conjE)
  have l: "(1::nat) < length ?L" unfolding len by simp
  from steps l have w: "1 < snd (scan_step_word ?L 1 [])" by blast
  from steps l e have "(1::nat) < 4" by blast
  with l e w md word show ?thesis unfolding len by (intro conjI)
qed

section \<open>Facts about the single-line rules\<close>




lemma strip_first_char:
  assumes "startswith L (d # p)" "\<not> isspace d"
  shows "\<exists>s. strip L = d # s"
proof -
  from assms(1) obtain t where "L = d # t"
    by (cases L) (auto simp: startswith_def)
  with assms(2) show ?thesis by (simp add: strip_Cons_nonspace)
qed

lemma not_startswith_other:
  assumes "strip L = c # s" "d \<noteq> c" "\<not> isspace d"
  shows "\<not> startswith L (d # p)"
  using strip_first_char [of L d p] assms by auto

lemma str_replace_char: "str_replace [c] [] s = filter (\<lambda>x. x \<noteq> c) s"
proof (induction s)
  case Nil
  show ?case by (subst str_replace.simps) simp
next
  case (Cons x s)
  show ?case
    by (subst str_replace.simps) (simp add: Cons startswith_def)
qed

lemma str_replace_prefix:
  "old \<noteq> [] \<Longrightarrow> str_replace old [] (old @ s) = str_replace old [] s"
  by (subst str_replace.simps) (simp add: startswith_def)

lemma bold_word:
  assumes "strip (lines ! i) = ''**'' @ t @ ''**''"
  shows "scan_step_word lines i doc = (doc @ [Paragraph t True False], i + 1)"
proof -
  define L where "L = lines ! i"
  from assms have s: "strip L = CHR ''*'' # (CHR ''*'' # t @ ''**'')" by (simp add: L_def)
  have f: "\<not> startswith L ''# ''" "\<not> startswith L ''## ''" "\<not> startswith L ''### ''"
    "\<not> startswith L ''#### ''" "\<not> startswith L ''```''"
    by (rule not_startswith_other [OF s]; simp)+
  have g: "\<not> startswith (strip L) ''|''" "startswith (strip L) ''**''" "endswith (strip L) ''**''"
    "slice 2 2 (strip L) = t"
    by (simp_all add: s startswith_def endswith_def slice_def)
  show ?thesis
    using f g unfolding L_def by (simp add: scan_step_word_def Let_def)
qed

lemma bold_md:
  assumes "lines ! i = ''**'' @ rest" "CHR ''|'' \<notin> set rest"
  shows "scan_step_md lines i doc = Inr (doc @ [Paragraph (str_replace ''**'' [] rest) True False], i + 1)"
proof -
  have r: "str_replace ''**'' [] (''**'' @ rest) = str_replace ''**'' [] rest"
    by (rule str_replace_prefix) simp
  show ?thesis
    using assms r
    by (simp add: scan_step_md_def Let_def strip_Nil_iff startswith_def add_paragraph_def)
qed

lemma list_word:
  assumes "strip (lines ! i) = ''- '' @ t"
  shows "scan_step_word lines i doc = (doc @ [ListItem t], i + 1)"
proof -
  define L where "L = lines ! i"
  from assms have s: "strip L = CHR ''-'' # (CHR '' '' # t)" by (simp add: L_def)
  have f: "\<not> startswith L ''# ''" "\<not> startswith L ''## ''" "\<not> startswith L ''### ''"
    "\<not> startswith L ''#### ''" "\<not> startswith L ''```''"
    by (rule not_startswith_other [OF s]; simp)+
  have g: "\<not> startswith (strip L) ''|''" "\<not> startswith (strip L) ''**''" "startswith (strip L) ''- ''"
    "drop 2 (strip L) = t"
    by (simp_all add: s startswith_def)
  show ?thesis
    using f g unfolding L_def by (simp add: scan_step_word_def Let_def)
qed

lemma para_md:
  assumes "strip (lines ! i) \<noteq> []"
    and "\<not> startswith (lines ! i) ''# ''" "\<not> startswith (lines ! i) ''## ''"
    and "\<not> startswith (lines ! i) ''### ''" "\<not> startswith (lines ! i) ''#### ''"
    and "CHR ''|'' \<notin> set (lines ! i)" "\<not> startswith (lines ! i) ''**''"
    and "\<not> startswith (lines ! i) ''---''"
    and "cleaned = filter (\<lambda>c. c \<noteq> CHR ''_'' \<and> c \<noteq> CHR ''`'') (str_replace ''**'' [] (lines ! i))"
  shows "scan_step_md lines i doc =
           Inr (if strip cleaned \<noteq> [] then doc @ [Paragraph cleaned False False] else doc, i + 1)"
proof -
  have "str_replace ''_'' [] (str_replace ''`'' [] (str_replace ''**'' [] (lines ! i))) = cleaned"
    unfolding assms(9) str_replace_char by (simp add: conj_commute)
  then show ?thesis
    using assms(1-8) by (simp add: scan_step_md_def Let_def add_paragraph_def)
qed

lemma para_word:
  assumes "strip (lines ! i) \<noteq> []"
    and "\<not> startswith (lines ! i) ''# ''" "\<not> startswith (lines ! i) ''## ''"
    and "\<not> startswith (lines ! i) ''### ''" "\<not> startswith (lines ! i) ''#### ''"
    and "\<not> startswith (lines ! i) ''```''" "\<not> startswith (strip (lines ! i)) ''|''"
    and "\<not> (startswith (strip (lines ! i)) ''**'' \<and> endswith (strip (lines ! i)) ''**'')"
    and "\<not> startswith (strip (lines ! i)) ''- ''" "\<not> startswith (lines ! i) ''#''"
  shows "scan_step_word lines i doc = (doc @ [Paragraph (strip (lines ! i)) False False], i + 1)"
proof -
  have "\<not> startswith (lines ! i) ''|''"
  proof
    assume "startswith (lines ! i) ''|''"
    then obtain s where "strip (lines ! i) = CHR ''|'' # s"
      using strip_first_char [of "lines ! i" "CHR ''|''" "[]"] by auto
    with assms(7) show False by (simp add: startswith_def)
  qed
  then show ?thesis
    using assms by (simp add: scan_step_word_def Let_def)
qed

section \<open>Facts about the table rules\<close>



































section \<open>Claim C1: a table fragment without data rows\<close>




section \<open>Claim C3: fenced code blocks\<close>




section \<open>Claim C4: header and row counts of a table\<close>




section \<open>Claim C5: data rows whose cell count differs from the header's\<close>




section \<open>Claim C6: horizontal rules\<close>

text \<open>
  Claim C6, as amended. At a line that consists of three or more hyphens and nothing
  else, convert\_md\_to\_docx.py adds exactly one spacer (an empty paragraph) and moves the
  cursor by exactly one line; convert\_to\_word.py, which has no rule for such lines,
  adds one plain paragraph that holds the hyphens and moves the cursor by one line.
\<close>

theorem hyphen_rule:
  assumes "i < length lines" "3 \<le> n" "lines ! i = replicate n CHR ''-''"
  shows "scan_step_md lines i doc = Inr (doc @ [Spacer], i + 1)
       \<and> scan_step_word lines i doc = (doc @ [Paragraph (replicate n CHR ''-'') False False], i + 1)"
  using assms by (simp add: hyphens_md hyphens_word)

theorem hyphen_rule_witness:
  "(0::nat) < length [''----''] \<and> (3::nat) \<le> 4 \<and> [''----''] ! 0 = replicate 4 CHR ''-''
   \<and> scan_step_md [''----''] 0 [] = Inr ([Spacer], 1)
   \<and> scan_step_word [''----''] 0 [] = ([Paragraph ''----'' False False], 1)"
proof -
  have r: "replicate 4 CHR ''-'' = ''----''" by (simp add: eval_nat_numeral)
  have h1: "(0::nat) < length [''----'']" by simp
  have h2: "(3::nat) \<le> 4" by simp
  have h3: "[''----''] ! 0 = replicate 4 CHR ''-''" by (simp add: r)
  from hyphen_rule [OF h1 h2 h3, of "[]"] h1 h2 h3 show ?thesis
    unfolding r by simp
qed

text \<open>
  The claim as stated fails on convert\_to\_word.py: three hyphens become a paragraph, not
  a spacer.
\<close>

theorem hyphen_rule_counterexample:
  "scan_step_word [''---''] 0 [] = ([Paragraph ''---'' False False], 1)"
  by code_simp

end
